theory Spec2Isabelle
  imports Main "HOL-Library.Word" "HOL-Library.Sublist"
begin

section \<open>Data model of main.py\<close>

text \<open>
  The program is a Tkinter front end over four libraries: OpenCV (camera, drawing, colour
  conversion), pyzbar (the code detector), PIL (image files) and webbrowser/pymsgbox (the
  visible effects). The embedding keeps the module's globals in one record that every
  function takes and returns, and logs each visible effect in a field of that record.
  What a library answers (the frame read from the camera, the codes the detector finds, the
  outcome of opening a file, the button pressed in a dialog) is an argument of the function
  that asks for it.
\<close>

subsection \<open>Pixels, arrays and drawing\<close>

text \<open>
  A colour array has three \<open>uint8\<close> channels per pixel. \<open>cv2.rectangle\<close> and
  \<open>cv2.putText\<close> paint into the array they are given; the model keeps what they were asked
  to paint, in call order, beside the pixels they were given (\<open>putText\<close> is always called
  with \<open>FONT_HERSHEY_SIMPLEX\<close> and scale 0.5, which are not recorded).
\<close>

type_synonym pixel = "8 word \<times> 8 word \<times> 8 word"

type_synonym frame = "pixel list list"

datatype draw =
    Rectangle "int \<times> int" "int \<times> int" pixel nat
  | PutText string "int \<times> int" pixel nat

record image =
  pixels :: frame
  drawn :: "draw list"

text \<open>
  What the detector is handed: the colour array in live mode, the array converted with
  \<open>COLOR_BGR2GRAY\<close> in the still-image scan (the conversion itself stays symbolic).
\<close>

datatype ndarray = Colour image | Gray image

definition swap_channels :: "pixel \<Rightarrow> pixel" where
  "swap_channels p = (case p of (c0, c1, c2) \<Rightarrow> (c2, c1, c0))"

fun swap_draw :: "draw \<Rightarrow> draw" where
  "swap_draw (Rectangle p q c t) = Rectangle p q (swap_channels c) t"
| "swap_draw (PutText txt p c t) = PutText txt p (swap_channels c) t"

text \<open>\<open>cv2.flip(frame, 1)\<close>: every row of the array is reversed.\<close>

definition flip :: "frame \<Rightarrow> frame" where
  "flip fr = map rev fr"

text \<open>
  \<open>cv2.cvtColor(a, cv2.COLOR_BGR2RGB)\<close> exchanges the first and the third channel of every
  pixel, whatever the array holds; what has been painted is part of the array.
\<close>

definition cvtColor_BGR2RGB_frame :: "frame \<Rightarrow> frame" where
  "cvtColor_BGR2RGB_frame fr = map (map swap_channels) fr"

definition cvtColor_BGR2RGB :: "image \<Rightarrow> image" where
  "cvtColor_BGR2RGB a =
     \<lparr>pixels = cvtColor_BGR2RGB_frame (pixels a), drawn = map swap_draw (drawn a)\<rparr>"

definition fromarray :: "frame \<Rightarrow> image" where
  "fromarray fr = \<lparr>pixels = fr, drawn = []\<rparr>"

definition rectangle :: "image \<Rightarrow> int \<times> int \<Rightarrow> int \<times> int \<Rightarrow> pixel \<Rightarrow> nat \<Rightarrow> image" where
  "rectangle a pt1 pt2 colour thickness =
     a\<lparr>drawn := drawn a @ [Rectangle pt1 pt2 colour thickness]\<rparr>"

definition putText :: "image \<Rightarrow> string \<Rightarrow> int \<times> int \<Rightarrow> pixel \<Rightarrow> nat \<Rightarrow> image" where
  "putText a txt org colour thickness =
     a\<lparr>drawn := drawn a @ [PutText txt org colour thickness]\<rparr>"

text \<open>\<open>img_np.size\<close>: the number of array elements.\<close>

definition array_size :: "image \<Rightarrow> nat" where
  "array_size a = 3 * sum_list (map length (pixels a))"

subsection \<open>Text and bytes\<close>

text \<open>
  A \<open>bytes\<close> value is a list of 8-bit characters. A Python \<open>str\<close> is represented by its
  UTF-8 encoding: two strings are equal exactly when their encodings are, and an ASCII
  prefix of the text is a prefix of the encoding. \<open>data.decode("utf-8")\<close> then returns the
  bytes it was given when they are well-formed UTF-8 and raises \<open>UnicodeDecodeError\<close>
  otherwise.
\<close>

datatype exn =
    UnicodeDecodeError
  | FileNotFoundError string
  | ValueError string
  | OSError string
  | IndexError
  | TclError
  | Cv2Error

definition cont :: "nat \<Rightarrow> bool" where
  "cont b = (128 \<le> b \<and> b \<le> 191)"

fun utf8_ok :: "nat list \<Rightarrow> bool" where
  "utf8_ok [] = True"
| "utf8_ok (b0 # bs) =
     (if b0 < 128 then utf8_ok bs
      else if 194 \<le> b0 \<and> b0 \<le> 223 then
        (case bs of
           b1 # r \<Rightarrow> cont b1 \<and> utf8_ok r
         | _ \<Rightarrow> False)
      else if 224 \<le> b0 \<and> b0 \<le> 239 then
        (case bs of
           b1 # b2 # r \<Rightarrow>
             (if b0 = 224 then 160 \<le> b1 \<and> b1 \<le> 191
              else if b0 = 237 then 128 \<le> b1 \<and> b1 \<le> 159
              else cont b1) \<and> cont b2 \<and> utf8_ok r
         | _ \<Rightarrow> False)
      else if 240 \<le> b0 \<and> b0 \<le> 244 then
        (case bs of
           b1 # b2 # b3 # r \<Rightarrow>
             (if b0 = 240 then 144 \<le> b1 \<and> b1 \<le> 191
              else if b0 = 244 then 128 \<le> b1 \<and> b1 \<le> 143
              else cont b1) \<and> cont b2 \<and> cont b3 \<and> utf8_ok r
         | _ \<Rightarrow> False)
      else False)"

definition decode_utf8 :: "string \<Rightarrow> exn + string" where
  "decode_utf8 bs = (if utf8_ok (map of_char bs) then Inr bs else Inl UnicodeDecodeError)"

text \<open>\<open>s.startswith(p)\<close>.\<close>

definition startswith :: "string \<Rightarrow> string \<Rightarrow> bool" where
  "startswith s p = (take (length p) s = p)"

subsection \<open>Detected codes, rows and the program state\<close>

text \<open>pyzbar's \<open>Decoded\<close> tuple, with the fields the program reads.\<close>

record barcode =
  data :: string
  btype :: string
  rect :: "int \<times> int \<times> int \<times> int"

text \<open>
  A Treeview item: its \<open>text\<close> option (an index, or the string \<open>n/a\<close>) and its
  \<open>values\<close> pair (ordinal, payload).
\<close>

datatype tk_text = TkInt nat | TkStr string

type_synonym item = "tk_text \<times> (nat \<times> string)"

text \<open>
  The globals \<open>cap\<close> (\<open>None\<close>, or a capture object that is open or released),
  \<open>seen_barcodes\<close>, the children of \<open>tree\<close> and the image of \<open>cam_label\<close>; then the
  effect logs: \<open>webbrowser.open\<close>, \<open>pymsgbox.alert\<close> and \<open>pymsgbox.confirm\<close> calls,
  printed lines, the arrays handed to the detector, the files written by \<open>cv2.imwrite\<close> and
  the number of \<open>label.after\<close> calls.
\<close>

record state =
  cap :: "bool option"
  seen_barcodes :: "string set"
  tree :: "item list"
  label_image :: "image option"
  browser :: "string list"
  alerts :: "(string \<times> string) list"
  confirms :: "(string \<times> string) list"
  printed :: "string list"
  decoded :: "ndarray list"
  written :: "(string \<times> frame) list"
  after_calls :: nat

definition init_state :: state where
  "init_state =
     \<lparr>cap = None, seen_barcodes = {}, tree = [], label_image = None, browser = [],
      alerts = [], confirms = [], printed = [], decoded = [], written = [],
      after_calls = 0\<rparr>"

section \<open>The live feed\<close>

text \<open>
  The loop of \<open>decode_barcodes_over_feed\<close> over \<open>enumerate(barcodes)\<close>, from index \<open>i\<close>.
  A payload that does not decode raises out of the loop, with the state as the iterations
  before it left it.
\<close>

fun feed_loop :: "nat \<Rightarrow> barcode list \<Rightarrow> image \<Rightarrow> state \<Rightarrow> state \<times> (exn + image)" where
  "feed_loop i [] image_np s = (s, Inr image_np)"
| "feed_loop i (b # barcodes) image_np s =
     (case decode_utf8 (data b) of
        Inl e \<Rightarrow> (s, Inl e)
      | Inr barcode_data \<Rightarrow>
          (case rect b of (x, y, w, h) \<Rightarrow>
             if barcode_data \<in> seen_barcodes s then
               feed_loop (Suc i) barcodes
                 (putText (rectangle image_np (x, y) (x + w, y + h) (225, 225, 225) 2)
                    barcode_data (x, y - 10) (225, 225, 225) 2)
                 s
             else
               feed_loop (Suc i) barcodes
                 (putText (rectangle image_np (x, y) (x + w, y + h) (225, 225, 225) 2)
                    (barcode_data @ '' ('' @ btype b @ '')'') (x, y - 10) (225, 225, 225) 2)
                 (s\<lparr>seen_barcodes := insert barcode_data (seen_barcodes s),
                    browser := browser s @ [barcode_data],
                    tree := tree s @ [(TkInt i, (i + 1, barcode_data))]\<rparr>)))"

definition decode_barcodes_over_feed ::
  "(ndarray \<Rightarrow> barcode list) \<Rightarrow> image \<Rightarrow> state \<Rightarrow> state \<times> (exn + image)" where
  "decode_barcodes_over_feed decode img s =
     (let image_np = img;
          barcodes = decode (Colour image_np)
      in case feed_loop 0 barcodes image_np (s\<lparr>decoded := decoded s @ [Colour image_np]\<rparr>) of
           (s', Inl e) \<Rightarrow> (s', Inl e)
         | (s', Inr a) \<Rightarrow> (s', Inr (cvtColor_BGR2RGB a)))"

text \<open>
  One tick of \<open>update_frame\<close>. \<open>rd\<close> is what \<open>cap.read()\<close> gave: \<open>None\<close> when \<open>ret\<close> is
  false. \<open>cv2.flip\<close> is applied before \<open>ret\<close> is tested and is taken to return without
  raising on the empty frame of a failed read. An exception leaves the callback before
  \<open>label.after\<close>.
\<close>

definition update_frame ::
  "(ndarray \<Rightarrow> barcode list) \<Rightarrow> frame option \<Rightarrow> state \<Rightarrow> state \<times> exn option" where
  "update_frame decode rd s =
     (case map_option flip rd of
        Some fr \<Rightarrow>
          (case decode_barcodes_over_feed decode (fromarray (cvtColor_BGR2RGB_frame fr)) s of
             (s', Inl e) \<Rightarrow> (s', Some e)
           | (s', Inr img) \<Rightarrow>
               (s'\<lparr>label_image := Some img, after_calls := Suc (after_calls s')\<rparr>, None))
      | None \<Rightarrow> (s\<lparr>after_calls := Suc (after_calls s)\<rparr>, None))"

text \<open>
  \<open>cam_feed\<close>: release the running capture, open a new one (\<open>opens\<close> tells whether the
  device opened) and run the first tick.
\<close>

definition cam_feed ::
  "(ndarray \<Rightarrow> barcode list) \<Rightarrow> bool \<Rightarrow> frame option \<Rightarrow> state \<Rightarrow> state \<times> exn option" where
  "cam_feed decode opens rd s = update_frame decode rd (s\<lparr>cap := Some opens\<rparr>)"

text \<open>A run of ticks; a tick that raised has left its state behind and the feed goes on
  from it when it is started again.\<close>

fun ticks :: "(ndarray \<Rightarrow> barcode list) \<Rightarrow> frame option list \<Rightarrow> state \<Rightarrow> state" where
  "ticks decode [] s = s"
| "ticks decode (rd # rds) s = ticks decode rds (fst (update_frame decode rd s))"

section \<open>Capturing and scanning a still image\<close>

text \<open>
  \<open>take_picture\<close>: an alert when no capture is open; otherwise the mirrored frame is
  written to \<open>captured_image.jpg\<close>, or an alert is shown when the read failed.
\<close>

definition take_picture :: "frame option \<Rightarrow> state \<Rightarrow> state" where
  "take_picture rd s =
     (if cap s = None \<or> cap s = Some False then
        s\<lparr>alerts := alerts s @ [(''Please start the video feed first.'', ''Warning'')]\<rparr>
      else
        (case map_option flip rd of
           Some fr \<Rightarrow>
             s\<lparr>written := written s @ [(''captured_image.jpg'', fr)],
               printed := printed s @
                 [''Image captured and saved as '' @ [CHR 0x27] @ ''captured_image.jpg'' @ [CHR 0x27]]\<rparr>
         | None \<Rightarrow> s\<lparr>alerts := alerts s @ [(''Failed to capture image.'', ''Error'')]\<rparr>))"

text \<open>The loop of \<open>detect_code\<close> over \<open>enumerate(decoded_image)\<close>, from index \<open>i\<close>.\<close>

fun scan_loop :: "nat \<Rightarrow> barcode list \<Rightarrow> image \<Rightarrow> state \<Rightarrow> state \<times> (exn + image)" where
  "scan_loop i [] img_np s = (s, Inr img_np)"
| "scan_loop i (b # barcodes) img_np s =
     (case rect b of (x, y, w, h) \<Rightarrow>
        (case decode_utf8 (data b) of
           Inl e \<Rightarrow> (s, Inl e)
         | Inr d \<Rightarrow>
             scan_loop (Suc i) barcodes
               (rectangle img_np (x, y) (x + w, y + h) (0, 0, 255) 4)
               (s\<lparr>tree := tree s @ [(TkInt i, (i + 1, d))]\<rparr>)))"

text \<open>
  What \<open>np.array(PIL.Image.open(path))\<close> gives depends on the mode of the file: a
  three-channel \<open>uint8\<close> array (RGB, YCbCr, LAB, HSV), a four-channel one (RGBA, CMYK,
  RGBX; kept as its first three channels and its fourth), a two-dimensional array (modes
  1, L, P, I, F) or a two-channel one (LA, PA). Of the last two kinds only the shape is
  kept: the scan reads their number of elements and nothing else.
\<close>

datatype pil_array =
    Channels3 image
  | Channels4 image "8 word list list"
  | Plane nat nat
  | Planes2 nat nat

fun np_size :: "pil_array \<Rightarrow> nat" where
  "np_size (Channels3 a) = array_size a"
| "np_size (Channels4 a alpha) = 4 * sum_list (map length (pixels a))"
| "np_size (Plane h w) = h * w"
| "np_size (Planes2 h w) = h * w * 2"

text \<open>
  \<open>cv2.cvtColor\<close> with \<open>COLOR_BGR2GRAY\<close> or \<open>COLOR_BGR2RGB\<close> takes an array of three or
  four channels, reads its first three and raises \<open>cv2.error\<close> on any other shape.
\<close>

fun colour_channels :: "pil_array \<Rightarrow> image option" where
  "colour_channels (Channels3 a) = Some a"
| "colour_channels (Channels4 a alpha) = Some a"
| "colour_channels (Plane h w) = None"
| "colour_channels (Planes2 h w) = None"

text \<open>
  The \<open>try\<close> block of \<open>detect_code\<close>: \<open>PIL_Image_open\<close> gives what opening the path and
  reading it into an array gives (the array, or the exception raised), and an array
  without elements raises \<open>ValueError\<close>.
\<close>

definition load_image :: "(string \<Rightarrow> exn + pil_array) \<Rightarrow> string \<Rightarrow> exn + pil_array" where
  "load_image PIL_Image_open path =
     (case PIL_Image_open path of
        Inl e \<Rightarrow> Inl e
      | Inr img_np \<Rightarrow>
          if np_size img_np = 0 then Inl (ValueError ''The image is empty or corrupted.'')
          else Inr img_np)"

text \<open>
  \<open>detect_code\<close>: the capture is released and the rows are deleted before the file is
  opened; only \<open>FileNotFoundError\<close> and \<open>ValueError\<close> are handled, by an alert. The
  conversion to grey comes before the detector is called, and its \<open>cv2.error\<close> is not
  handled either. The boxes are painted into the array that was read, and the closing
  conversion keeps its first three channels, exchanged.
\<close>

definition detect_code ::
  "(string \<Rightarrow> exn + pil_array) \<Rightarrow> (ndarray \<Rightarrow> barcode list) \<Rightarrow> string \<Rightarrow> state \<Rightarrow> state \<times> exn option" where
  "detect_code PIL_Image_open decode path s =
     (let s1 = (if cap s \<noteq> None then s\<lparr>cap := Some False\<rparr> else s);
          s2 = s1\<lparr>tree := []\<rparr>
      in case load_image PIL_Image_open path of
           Inl (FileNotFoundError m) \<Rightarrow> (s2\<lparr>alerts := alerts s2 @ [(''Error: '' @ m, [])]\<rparr>, None)
         | Inl (ValueError m) \<Rightarrow> (s2\<lparr>alerts := alerts s2 @ [(''Error: '' @ m, [])]\<rparr>, None)
         | Inl e \<Rightarrow> (s2, Some e)
         | Inr arr \<Rightarrow>
             (case colour_channels arr of
                None \<Rightarrow> (s2, Some Cv2Error)
              | Some img_np \<Rightarrow>
                  (let decoded_image = decode (Gray img_np);
                       s3 = s2\<lparr>decoded := decoded s2 @ [Gray img_np]\<rparr>;
                       s4 = (if length decoded_image = 0
                             then s3\<lparr>tree := tree s3 @ [(TkStr ''n/a'', (1, ''No barcodes detected''))]\<rparr>
                             else s3)
                   in case scan_loop 0 decoded_image img_np s4 of
                        (s5, Inl e) \<Rightarrow> (s5, Some e)
                      | (s5, Inr a) \<Rightarrow> (s5\<lparr>label_image := Some (cvtColor_BGR2RGB a)\<rparr>, None))))"

section \<open>Selecting a row\<close>

text \<open>
  \<open>select_link\<close>: \<open>selection\<close> is \<open>tree.selection()\<close> as positions in the row list, and
  \<open>response\<close> is the button \<open>pymsgbox.confirm\<close> returns when it is shown.
\<close>

definition select_link :: "nat list \<Rightarrow> string \<Rightarrow> state \<Rightarrow> state \<times> exn option" where
  "select_link selection response s =
     (case selection of
        [] \<Rightarrow> (s, Some IndexError)
      | selected_item # _ \<Rightarrow>
          if length (tree s) \<le> selected_item then (s, Some TclError)
          else
            (let values = snd (tree s ! selected_item);
                 link = snd values
             in if startswith link ''https:'' then (s\<lparr>browser := browser s @ [link]\<rparr>, None)
                else
                  (let s1 = s\<lparr>confirms := confirms s @
                              [(''The item selected is not a link. Do you still want to open it?'',
                                ''Confirmation'')]\<rparr>
                   in if response = ''OK'' then (s1\<lparr>browser := browser s1 @ [link]\<rparr>, None)
                      else (s1\<lparr>printed := printed s1 @ [''User chose to cancel'']\<rparr>, None))))"


section \<open>Notions used in the statements\<close>

text \<open>
  The session invariant of the dispatcher log: no payload was opened twice, and every
  payload opened is in the dedup set.
\<close>

definition dispatch_inv :: "state \<Rightarrow> bool" where
  "dispatch_inv s = (distinct (browser s) \<and> set (browser s) \<subseteq> seen_barcodes s)"

text \<open>
  The payloads a loop over a detection list gets to handle: those of the codes before the
  first one whose bytes do not decode.
\<close>

fun handled_payloads :: "barcode list \<Rightarrow> string list" where
  "handled_payloads [] = []"
| "handled_payloads (b # bs) =
     (case decode_utf8 (data b) of Inl e \<Rightarrow> [] | Inr d \<Rightarrow> d # handled_payloads bs)"

text \<open>The row inserted for the code at position \<open>k\<close> of a detection list.\<close>

definition row :: "nat \<times> string \<Rightarrow> item" where
  "row p = (case p of (k, d) \<Rightarrow> (TkInt k, (Suc k, d)))"

text \<open>
  The state \<open>detect_code\<close> has reached when it opens the file (capture released, rows
  deleted), and the one in which its loop starts (detector called, sentinel row inserted when
  nothing was found).
\<close>

definition cleared :: "state \<Rightarrow> state" where
  "cleared s = (if cap s \<noteq> None then s\<lparr>cap := Some False\<rparr> else s)\<lparr>tree := []\<rparr>"

definition scan_start :: "(ndarray \<Rightarrow> barcode list) \<Rightarrow> image \<Rightarrow> state \<Rightarrow> state" where
  "scan_start decode img s =
     (if length (decode (Gray img)) = 0
      then (cleared s)\<lparr>decoded := decoded (cleared s) @ [Gray img],
             tree := [(TkStr ''n/a'', (1, ''No barcodes detected''))]\<rparr>
      else (cleared s)\<lparr>decoded := decoded (cleared s) @ [Gray img]\<rparr>)"

subsection \<open>Sample inputs\<close>

definition sample_frame :: frame where
  "sample_frame = [[(1, 2, 3), (4, 5, 6)]]"

definition sample_image :: image where
  "sample_image = \<lparr>pixels = [[(1, 2, 3)]], drawn = []\<rparr>"

definition no_codes :: "ndarray \<Rightarrow> barcode list" where
  "no_codes a = []"

definition one_code :: "ndarray \<Rightarrow> barcode list" where
  "one_code a =
     [\<lparr>data = ''https://example.com'', btype = ''QRCODE'', rect = (10, 20, 30, 40)\<rparr>]"

definition two_codes :: "ndarray \<Rightarrow> barcode list" where
  "two_codes a =
     [\<lparr>data = ''https://example.com'', btype = ''QRCODE'', rect = (10, 20, 30, 40)\<rparr>,
      \<lparr>data = ''ftp://host/res'', btype = ''CODE128'', rect = (50, 60, 70, 80)\<rparr>]"

definition bad_code :: "ndarray \<Rightarrow> barcode list" where
  "bad_code a = [\<lparr>data = [CHR 0xFF], btype = ''QRCODE'', rect = (10, 20, 30, 40)\<rparr>]"

definition missing_message :: "string \<Rightarrow> string" where
  "missing_message path =
     ''[Errno 2] No such file or directory: '' @ [CHR 0x27] @ path @ [CHR 0x27]"

definition no_file :: "string \<Rightarrow> exn + pil_array" where
  "no_file path = Inl (FileNotFoundError (missing_message path))"

definition sample_file :: "string \<Rightarrow> exn + pil_array" where
  "sample_file path = Inr (Channels3 sample_image)"

definition rgba_file :: "string \<Rightarrow> exn + pil_array" where
  "rgba_file path = Inr (Channels4 sample_image [[255]])"

definition grey_file :: "string \<Rightarrow> exn + pil_array" where
  "grey_file path = Inr (Plane 1 1)"

definition seen_state :: state where
  "seen_state = init_state\<lparr>seen_barcodes := {''https://example.com''}\<rparr>"

definition listed_state :: state where
  "listed_state =
     init_state\<lparr>tree := [(TkInt 0, (1, ''https://example.com'')), (TkInt 1, (2, ''ftp://host/res''))]\<rparr>"

lemmas eval_defs =
  update_frame_def decode_barcodes_over_feed_def detect_code_def load_image_def
  select_link_def take_picture_def cam_feed_def startswith_def array_size_def
  init_state_def flip_def cvtColor_BGR2RGB_frame_def cvtColor_BGR2RGB_def fromarray_def
  rectangle_def putText_def swap_channels_def decode_utf8_def cont_def Let_def
  sample_frame_def sample_image_def no_codes_def one_code_def two_codes_def bad_code_def
  no_file_def missing_message_def sample_file_def rgba_file_def grey_file_def seen_state_def listed_state_def

section \<open>The loop of the live feed, one iteration at a time\<close>


lemma feed_loop_Cons_err:
  "decode_utf8 (data b) = Inl e \<Longrightarrow> feed_loop i (b # bs) a s = (s, Inl e)"
  by simp

lemma feed_loop_Cons_seen:
  "decode_utf8 (data b) = Inr d \<Longrightarrow> d \<in> seen_barcodes s \<Longrightarrow>
   \<exists>a'. feed_loop i (b # bs) a s = feed_loop (Suc i) bs a' s"
  by (cases "rect b") (simp, blast)

lemma feed_loop_Cons_new:
  "decode_utf8 (data b) = Inr d \<Longrightarrow> d \<notin> seen_barcodes s \<Longrightarrow>
   \<exists>a'. feed_loop i (b # bs) a s =
     feed_loop (Suc i) bs a'
       (s\<lparr>seen_barcodes := insert d (seen_barcodes s),
          browser := browser s @ [d],
          tree := tree s @ [(TkInt i, (i + 1, d))]\<rparr>)"
  by (cases "rect b") (simp, blast)

lemma feed_loop_cases:
  obtains (err) e where "decode_utf8 (data b) = Inl e" "feed_loop i (b # bs) a s = (s, Inl e)"
  | (seen) d a' where "decode_utf8 (data b) = Inr d" "d \<in> seen_barcodes s"
      "feed_loop i (b # bs) a s = feed_loop (Suc i) bs a' s"
  | (new) d a' where "decode_utf8 (data b) = Inr d" "d \<notin> seen_barcodes s"
      "feed_loop i (b # bs) a s =
         feed_loop (Suc i) bs a'
           (s\<lparr>seen_barcodes := insert d (seen_barcodes s),
              browser := browser s @ [d],
              tree := tree s @ [(TkInt i, (i + 1, d))]\<rparr>)"
proof (cases "decode_utf8 (data b)")
  case (Inl e)
  then show ?thesis using err feed_loop_Cons_err by blast
next
  case (Inr d)
  show ?thesis
  proof (cases "d \<in> seen_barcodes s")
    case True
    from feed_loop_Cons_seen[OF Inr True] obtain a'
      where "feed_loop i (b # bs) a s = feed_loop (Suc i) bs a' s" by blast
    then show ?thesis using seen Inr True by blast
  next
    case False
    from feed_loop_Cons_new[OF Inr False] obtain a'
      where "feed_loop i (b # bs) a s =
         feed_loop (Suc i) bs a'
           (s\<lparr>seen_barcodes := insert d (seen_barcodes s),
              browser := browser s @ [d],
              tree := tree s @ [(TkInt i, (i + 1, d))]\<rparr>)" by blast
    then show ?thesis using new Inr False by blast
  qed
qed

lemma feed_loop_seen_mono:
  "seen_barcodes s \<subseteq> seen_barcodes (fst (feed_loop i bs a s))"
proof (induction bs arbitrary: i a s)
  case Nil
  show ?case by simp
next
  case (Cons b bs)
  show ?case
  proof (cases rule: feed_loop_cases[of b i bs a s])
    case (err e)
    then show ?thesis by simp
  next
    case (seen d a')
    then show ?thesis using Cons.IH by simp
  next
    case (new d a')
    have "insert d (seen_barcodes s) \<subseteq> seen_barcodes (fst (feed_loop i (b # bs) a s))"
      unfolding new(3) by (rule subset_trans[OF _ Cons.IH]) simp
    then show ?thesis by blast
  qed
qed


lemma feed_loop_frame:
  "cap (fst (feed_loop i bs a s)) = cap s \<and>
   label_image (fst (feed_loop i bs a s)) = label_image s \<and>
   alerts (fst (feed_loop i bs a s)) = alerts s \<and>
   confirms (fst (feed_loop i bs a s)) = confirms s \<and>
   printed (fst (feed_loop i bs a s)) = printed s \<and>
   decoded (fst (feed_loop i bs a s)) = decoded s \<and>
   written (fst (feed_loop i bs a s)) = written s \<and>
   after_calls (fst (feed_loop i bs a s)) = after_calls s"
proof (induction bs arbitrary: i a s)
  case Nil
  show ?case by simp
next
  case (Cons b bs)
  show ?case
  proof (cases rule: feed_loop_cases[of b i bs a s])
    case (err e)
    then show ?thesis by simp
  next
    case (seen d a')
    then show ?thesis using Cons.IH by simp
  next
    case (new d a')
    show ?thesis unfolding new(3) using Cons.IH[of "Suc i" a'] by simp
  qed
qed

lemma feed_loop_effects:
  "\<exists>new. tree (fst (feed_loop i bs a s)) = tree s @ map (\<lambda>(k, d). (TkInt k, (Suc k, d))) new \<and>
         browser (fst (feed_loop i bs a s)) = browser s @ map snd new \<and>
         seen_barcodes (fst (feed_loop i bs a s)) = seen_barcodes s \<union> set (map snd new) \<and>
         distinct (map snd new) \<and> set (map snd new) \<inter> seen_barcodes s = {}"
proof (induction bs arbitrary: i a s)
  case Nil
  show ?case by simp
next
  case (Cons b bs)
  show ?case
  proof (cases rule: feed_loop_cases[of b i bs a s])
    case (err e)
    then show ?thesis by simp
  next
    case (seen d a')
    show ?thesis unfolding seen(3) by (rule Cons.IH)
  next
    case (new d a')
    let ?s1 = "s\<lparr>seen_barcodes := insert d (seen_barcodes s),
              browser := browser s @ [d],
              tree := tree s @ [(TkInt i, (i + 1, d))]\<rparr>"
    from Cons.IH[of "Suc i" a' ?s1] obtain nw where
      t: "tree (fst (feed_loop (Suc i) bs a' ?s1)) = tree ?s1 @ map (\<lambda>(k, d). (TkInt k, (Suc k, d))) nw"
      and b: "browser (fst (feed_loop (Suc i) bs a' ?s1)) = browser ?s1 @ map snd nw"
      and sn: "seen_barcodes (fst (feed_loop (Suc i) bs a' ?s1)) = seen_barcodes ?s1 \<union> set (map snd nw)"
      and d: "distinct (map snd nw)"
      and dj: "set (map snd nw) \<inter> seen_barcodes ?s1 = {}"
      by blast
    have dn: "d \<notin> set (map snd nw)" using dj by auto
    have 1: "tree (fst (feed_loop i (b # bs) a s)) =
        tree s @ map (\<lambda>(k, d). (TkInt k, (Suc k, d))) ((i, d) # nw)"
      unfolding new(3) t by simp
    have 2: "browser (fst (feed_loop i (b # bs) a s)) = browser s @ map snd ((i, d) # nw)"
      unfolding new(3) b by simp
    have 3: "seen_barcodes (fst (feed_loop i (b # bs) a s)) =
        seen_barcodes s \<union> set (map snd ((i, d) # nw))"
      unfolding new(3) sn by simp
    have 4: "distinct (map snd ((i, d) # nw))" using d dn by simp
    have 5: "set (map snd ((i, d) # nw)) \<inter> seen_barcodes s = {}"
      using dj new(2) by auto
    from 1 2 3 4 5 show ?thesis by blast
  qed
qed


lemma fst_decode_barcodes_over_feed:
  "fst (decode_barcodes_over_feed decode img s) =
   fst (feed_loop 0 (decode (Colour img)) img (s\<lparr>decoded := decoded s @ [Colour img]\<rparr>))"
  by (simp add: decode_barcodes_over_feed_def Let_def split: prod.splits sum.splits)

lemma update_frame_None:
  "update_frame decode None s = (s\<lparr>after_calls := Suc (after_calls s)\<rparr>, None)"
  by (simp add: update_frame_def)

lemma update_frame_Some_fields:
  "seen_barcodes (fst (update_frame decode (Some fr) s)) =
     seen_barcodes (fst (decode_barcodes_over_feed decode (fromarray (cvtColor_BGR2RGB_frame (flip fr))) s)) \<and>
   browser (fst (update_frame decode (Some fr) s)) =
     browser (fst (decode_barcodes_over_feed decode (fromarray (cvtColor_BGR2RGB_frame (flip fr))) s)) \<and>
   tree (fst (update_frame decode (Some fr) s)) =
     tree (fst (decode_barcodes_over_feed decode (fromarray (cvtColor_BGR2RGB_frame (flip fr))) s))"
  by (simp add: update_frame_def split: prod.splits sum.splits)

lemma decode_barcodes_over_feed_effects:
  "\<exists>new. tree (fst (decode_barcodes_over_feed decode img s)) =
            tree s @ map (\<lambda>(k, d). (TkInt k, (Suc k, d))) new \<and>
         browser (fst (decode_barcodes_over_feed decode img s)) = browser s @ map snd new \<and>
         seen_barcodes (fst (decode_barcodes_over_feed decode img s)) =
            seen_barcodes s \<union> set (map snd new) \<and>
         distinct (map snd new) \<and> set (map snd new) \<inter> seen_barcodes s = {}"
  unfolding fst_decode_barcodes_over_feed
  using feed_loop_effects[of 0 "decode (Colour img)" img "s\<lparr>decoded := decoded s @ [Colour img]\<rparr>"]
  by simp

lemma update_frame_effects:
  "\<exists>new. tree (fst (update_frame decode rd s)) =
            tree s @ map (\<lambda>(k, d). (TkInt k, (Suc k, d))) new \<and>
         browser (fst (update_frame decode rd s)) = browser s @ map snd new \<and>
         seen_barcodes (fst (update_frame decode rd s)) = seen_barcodes s \<union> set (map snd new) \<and>
         distinct (map snd new) \<and> set (map snd new) \<inter> seen_barcodes s = {}"
proof (cases rd)
  case None
  have "tree (fst (update_frame decode rd s)) = tree s @ map (\<lambda>(k, d). (TkInt k, (Suc k, d))) [] \<and>
         browser (fst (update_frame decode rd s)) = browser s @ map snd ([] :: (nat \<times> string) list) \<and>
         seen_barcodes (fst (update_frame decode rd s)) = seen_barcodes s \<union> set (map snd ([] :: (nat \<times> string) list)) \<and>
         distinct (map snd ([] :: (nat \<times> string) list)) \<and> set (map snd ([] :: (nat \<times> string) list)) \<inter> seen_barcodes s = {}"
    unfolding None update_frame_None by simp
  then show ?thesis by blast
next
  case (Some fr)
  show ?thesis unfolding Some
    using update_frame_Some_fields[of decode fr s]
      decode_barcodes_over_feed_effects[of decode "fromarray (cvtColor_BGR2RGB_frame (flip fr))" s]
    by simp
qed


lemma update_frame_inv:
  assumes "dispatch_inv s"
  shows "dispatch_inv (fst (update_frame decode rd s))"
proof -
  from update_frame_effects[of decode rd s] obtain nw :: "(nat \<times> string) list" where
    b: "browser (fst (update_frame decode rd s)) = browser s @ map snd nw"
    and sn: "seen_barcodes (fst (update_frame decode rd s)) = seen_barcodes s \<union> set (map snd nw)"
    and d: "distinct (map snd nw)"
    and dj: "set (map snd nw) \<inter> seen_barcodes s = {}"
    by blast
  from assms have "distinct (browser s)" "set (browser s) \<subseteq> seen_barcodes s"
    by (simp_all add: dispatch_inv_def)
  then show ?thesis
    unfolding dispatch_inv_def b sn using d dj by auto
qed

lemma ticks_inv: "dispatch_inv s \<Longrightarrow> dispatch_inv (ticks decode rds s)"
  by (induction rds arbitrary: s) (simp_all add: update_frame_inv)

lemma init_inv: "dispatch_inv init_state"
  by (simp add: dispatch_inv_def init_state_def)

text \<open>
  Claim C1. Over any run of live-mode ticks from the start of a session, no payload is
  handed to \<open>webbrowser.open\<close> twice. And once a payload \<open>p\<close> is in the dedup set, a
  tick on any frame only appends to the dispatcher log and to the row list, and nothing it
  appends carries \<open>p\<close>.
\<close>

theorem dispatch_at_most_once:
  "distinct (browser (ticks decode rds init_state)) \<and>
   (p \<in> seen_barcodes s \<longrightarrow>
      take (length (browser s)) (browser (fst (update_frame decode rd s))) = browser s \<and>
      p \<notin> set (drop (length (browser s)) (browser (fst (update_frame decode rd s)))) \<and>
      take (length (tree s)) (tree (fst (update_frame decode rd s))) = tree s \<and>
      p \<notin> (snd \<circ> snd) ` set (drop (length (tree s)) (tree (fst (update_frame decode rd s)))))"
proof -
  have 1: "distinct (browser (ticks decode rds init_state))"
    using ticks_inv[OF init_inv, of decode rds] by (simp add: dispatch_inv_def)
  from update_frame_effects[of decode rd s] obtain nw where
    t: "tree (fst (update_frame decode rd s)) = tree s @ map (\<lambda>(k, d). (TkInt k, (Suc k, d))) nw"
    and b: "browser (fst (update_frame decode rd s)) = browser s @ map snd nw"
    and dj: "set (map snd nw) \<inter> seen_barcodes s = {}"
    by blast
  have pl: "(snd \<circ> snd) ` set (map (\<lambda>(k, d). (TkInt k, (Suc k, d))) nw) = set (map snd nw)"
    by (force simp: image_iff)
  have 2: "p \<in> seen_barcodes s \<longrightarrow>
      take (length (browser s)) (browser (fst (update_frame decode rd s))) = browser s \<and>
      p \<notin> set (drop (length (browser s)) (browser (fst (update_frame decode rd s)))) \<and>
      take (length (tree s)) (tree (fst (update_frame decode rd s))) = tree s \<and>
      p \<notin> (snd \<circ> snd) ` set (drop (length (tree s)) (tree (fst (update_frame decode rd s))))"
    unfolding t b using dj pl by auto
  from 1 2 show ?thesis by blast
qed



theorem dispatch_at_most_once_witness:
  "''https://example.com'' \<in> seen_barcodes seen_state \<and>
   distinct (browser (ticks one_code [Some sample_frame, None, Some sample_frame] init_state)) \<and>
   take (length (browser seen_state))
     (browser (fst (update_frame one_code (Some sample_frame) seen_state))) = browser seen_state \<and>
   ''https://example.com'' \<notin>
     set (drop (length (browser seen_state))
       (browser (fst (update_frame one_code (Some sample_frame) seen_state)))) \<and>
   take (length (tree seen_state))
     (tree (fst (update_frame one_code (Some sample_frame) seen_state))) = tree seen_state \<and>
   ''https://example.com'' \<notin> (snd \<circ> snd) `
     set (drop (length (tree seen_state))
       (tree (fst (update_frame one_code (Some sample_frame) seen_state))))"
proof -
  have h: "''https://example.com'' \<in> seen_barcodes seen_state"
    by (simp add: seen_state_def init_state_def)
  show ?thesis
    using h dispatch_at_most_once[where p = "''https://example.com''" and s = seen_state
        and decode = one_code and rd = "Some sample_frame"
        and rds = "[Some sample_frame, None, Some sample_frame]"]
    by blast
qed

text \<open>
  The scenario of the specification: two consecutive frames showing the same code give one
  dispatch and one row, and the second frame's box carries the bare payload.
\<close>

lemma two_frames_one_dispatch:
  "browser (ticks one_code [Some sample_frame, Some sample_frame] init_state) =
     [''https://example.com''] \<and>
   tree (ticks one_code [Some sample_frame, Some sample_frame] init_state) =
     [(TkInt 0, (1, ''https://example.com''))] \<and>
   map_option drawn (label_image (ticks one_code [Some sample_frame, Some sample_frame] init_state)) =
     Some [Rectangle (10, 20) (40, 60) (225, 225, 225) 2,
           PutText ''https://example.com'' (10, 10) (225, 225, 225) 2]"
  by (simp add: eval_defs)


section \<open>The still-image scan, row selection and the remaining properties\<close>


lemma scan_loop_state:
  "fst (scan_loop i bs a s) =
   s\<lparr>tree := tree s @ map row (enumerate i (handled_payloads bs))\<rparr>"
proof (induction bs arbitrary: i a s)
  case Nil
  show ?case by simp
next
  case (Cons b bs)
  obtain x y w h where r: "rect b = (x, y, w, h)" by (cases "rect b") auto
  show ?case
  proof (cases "decode_utf8 (data b)")
    case (Inl e)
    with r show ?thesis by simp
  next
    case (Inr d)
    have "fst (scan_loop i (b # bs) a s) =
      fst (scan_loop (Suc i) bs (rectangle a (x, y) (x + w, y + h) (0, 0, 255) 4)
             (s\<lparr>tree := tree s @ [(TkInt i, (i + 1, d))]\<rparr>))"
      using r Inr by simp
    also have "\<dots> = s\<lparr>tree := tree s @ map row (enumerate i (handled_payloads (b # bs)))\<rparr>"
      unfolding Cons.IH using Inr by (simp add: row_def)
    finally show ?thesis .
  qed
qed

lemma scan_loop_ok:
  "handled_payloads bs = map data bs \<Longrightarrow> \<exists>a'. snd (scan_loop i bs a s) = Inr a'"
proof (induction bs arbitrary: i a s)
  case Nil
  show ?case by simp
next
  case (Cons b bs)
  obtain x y w h where r: "rect b = (x, y, w, h)" by (cases "rect b") auto
  show ?case
  proof (cases "decode_utf8 (data b)")
    case (Inl e)
    with Cons.prems show ?thesis by simp
  next
    case (Inr d)
    with Cons.prems have "handled_payloads bs = map data bs" by simp
    from Cons.IH[OF this] show ?thesis using r Inr by simp
  qed
qed


lemma cleared_fields:
  "seen_barcodes (cleared s) = seen_barcodes s" "browser (cleared s) = browser s"
  "tree (cleared s) = []" "alerts (cleared s) = alerts s" "decoded (cleared s) = decoded s"
  "label_image (cleared s) = label_image s" "confirms (cleared s) = confirms s"
  "printed (cleared s) = printed s" "written (cleared s) = written s"
  "after_calls (cleared s) = after_calls s"
  by (simp_all add: cleared_def)

lemma detect_code_failed:
  assumes "load_image P path = Inl e"
  shows "detect_code P decode path s =
    (case e of
       FileNotFoundError m \<Rightarrow> ((cleared s)\<lparr>alerts := alerts s @ [(''Error: '' @ m, [])]\<rparr>, None)
     | ValueError m \<Rightarrow> ((cleared s)\<lparr>alerts := alerts s @ [(''Error: '' @ m, [])]\<rparr>, None)
     | _ \<Rightarrow> (cleared s, Some e))"
  using assms by (cases e) (simp_all add: detect_code_def Let_def cleared_def)

lemma detect_code_unconvertible:
  assumes "load_image P path = Inr arr" and "colour_channels arr = None"
  shows "detect_code P decode path s = (cleared s, Some Cv2Error)"
  using assms by (simp add: detect_code_def Let_def cleared_def)

lemma detect_code_loaded:
  assumes "load_image P path = Inr arr" and "colour_channels arr = Some img"
  shows "detect_code P decode path s =
    (case snd (scan_loop 0 (decode (Gray img)) img (scan_start decode img s)) of
       Inl e \<Rightarrow> (fst (scan_loop 0 (decode (Gray img)) img (scan_start decode img s)), Some e)
     | Inr a \<Rightarrow>
         ((fst (scan_loop 0 (decode (Gray img)) img (scan_start decode img s)))
            \<lparr>label_image := Some (cvtColor_BGR2RGB a)\<rparr>, None))"
proof -
  obtain s5 r where sl: "scan_loop 0 (decode (Gray img)) img (scan_start decode img s) = (s5, r)"
    by (cases "scan_loop 0 (decode (Gray img)) img (scan_start decode img s)")
  have "detect_code P decode path s =
    (case scan_loop 0 (decode (Gray img)) img (scan_start decode img s) of
       (s5, Inl e) \<Rightarrow> (s5, Some e)
     | (s5, Inr a) \<Rightarrow> (s5\<lparr>label_image := Some (cvtColor_BGR2RGB a)\<rparr>, None))"
    using assms by (simp add: detect_code_def Let_def cleared_def scan_start_def)
  then show ?thesis unfolding sl by (cases r) simp_all
qed

lemma scan_start_fields:
  "seen_barcodes (scan_start decode img s) = seen_barcodes s"
  "browser (scan_start decode img s) = browser s"
  by (simp_all add: scan_start_def cleared_fields)

lemma detect_code_seen_browser:
  "seen_barcodes (fst (detect_code P decode path s)) = seen_barcodes s \<and>
   browser (fst (detect_code P decode path s)) = browser s"
proof (cases "load_image P path")
  case (Inl e)
  show ?thesis unfolding detect_code_failed[OF Inl]
    by (cases e) (simp_all add: cleared_fields)
next
  case (Inr arr)
  show ?thesis
  proof (cases "colour_channels arr")
    case None
    show ?thesis unfolding detect_code_unconvertible[OF Inr None]
      by (simp add: cleared_fields)
  next
    case (Some img)
    show ?thesis unfolding detect_code_loaded[OF Inr Some]
      by (cases "snd (scan_loop 0 (decode (Gray img)) img (scan_start decode img s))")
         (simp_all add: scan_loop_state scan_start_fields)
  qed
qed

lemma handled_all:
  "\<forall>b\<in>set bs. utf8_ok (map of_char (data b)) \<Longrightarrow> handled_payloads bs = map data bs"
  by (induction bs) (simp_all add: decode_utf8_def)

lemma rows_by_index:
  "map row (enumerate 0 xs) = map (\<lambda>i. (TkInt i, (Suc i, xs ! i))) [0..<length xs]"
  by (rule nth_equalityI) (simp_all add: row_def nth_enumerate_eq)

lemma load_image_ok:
  "P path = Inr arr \<Longrightarrow> np_size arr \<noteq> 0 \<Longrightarrow> load_image P path = Inr arr"
  by (simp add: load_image_def)

text \<open>
  Claim C10. Whatever the file holds and whatever the detector finds, a still-image scan
  leaves the dedup set as it was and makes no \<open>webbrowser.open\<close> call, also when it ends
  in an alert or in an exception.
\<close>

theorem still_scan_keeps_session:
  "seen_barcodes (fst (detect_code P decode path s)) = seen_barcodes s \<and>
   browser (fst (detect_code P decode path s)) = browser s"
  by (rule detect_code_seen_browser)

text \<open>
  Claim C7, as amended. When the file loads as an array of three or four channels and the
  detector finds nothing in it, the row list after the scan is the single row
  \<open>(1, "No barcodes detected")\<close>, whatever rows were shown before.
\<close>

theorem still_scan_no_codes:
  assumes "P path = Inr arr" and "np_size arr \<noteq> 0" and "colour_channels arr = Some img"
    and "decode (Gray img) = []"
  shows "tree (fst (detect_code P decode path s)) = [(TkStr ''n/a'', (1, ''No barcodes detected''))] \<and>
         snd (detect_code P decode path s) = None"
proof -
  have li: "load_image P path = Inr arr" using assms(1,2) by (simp add: load_image_def)
  show ?thesis unfolding detect_code_loaded[OF li assms(3)]
    using assms(4) by (simp add: scan_start_def)
qed

theorem still_scan_no_codes_witness:
  "sample_file ''captured_image.jpg'' = Inr (Channels3 sample_image) \<and>
   np_size (Channels3 sample_image) \<noteq> 0 \<and>
   colour_channels (Channels3 sample_image) = Some sample_image \<and>
   no_codes (Gray sample_image) = [] \<and> length (tree listed_state) = 2 \<and>
   tree (fst (detect_code sample_file no_codes ''captured_image.jpg'' listed_state)) =
     [(TkStr ''n/a'', (1, ''No barcodes detected''))] \<and>
   snd (detect_code sample_file no_codes ''captured_image.jpg'' listed_state) = None"
proof -
  have h1: "sample_file ''captured_image.jpg'' = Inr (Channels3 sample_image)"
    by (simp add: sample_file_def)
  have h2: "np_size (Channels3 sample_image) \<noteq> 0" by (simp add: array_size_def sample_image_def)
  have h3: "colour_channels (Channels3 sample_image) = Some sample_image" by simp
  have h4: "no_codes (Gray sample_image) = []" by (simp add: no_codes_def)
  have h5: "length (tree listed_state) = 2" by (simp add: listed_state_def init_state_def)
  show ?thesis
    using h1 h2 h3 h4 h5
      still_scan_no_codes[where P = sample_file and path = "''captured_image.jpg''"
        and arr = "Channels3 sample_image" and img = sample_image and decode = no_codes
        and s = listed_state]
    by blast
qed

text \<open>
  Claim C7, as stated, fails on an image of another shape: for a greyscale file (a
  two-dimensional array) the conversion to grey raises \<open>cv2.error\<close> after the rows were
  deleted, the detector is never called, and no sentinel row is inserted, whatever the
  detector would find (here \<open>no_codes\<close>, which finds nothing in any array).
\<close>

theorem still_scan_no_codes_counterexample:
  "grey_file ''captured_image.jpg'' = Inr (Plane 1 1) \<and> np_size (Plane 1 1) \<noteq> 0 \<and>
   length (tree listed_state) = 2 \<and>
   tree (fst (detect_code grey_file no_codes ''captured_image.jpg'' listed_state)) = [] \<and>
   decoded (fst (detect_code grey_file no_codes ''captured_image.jpg'' listed_state)) = [] \<and>
   snd (detect_code grey_file no_codes ''captured_image.jpg'' listed_state) = Some Cv2Error"
  by (simp add: eval_defs)

text \<open>A file with a fourth channel is scanned like one with three.\<close>

lemma still_scan_four_channels:
  "tree (fst (detect_code rgba_file no_codes ''captured_image.jpg'' listed_state)) =
     [(TkStr ''n/a'', (1, ''No barcodes detected''))] \<and>
   tree (fst (detect_code rgba_file two_codes ''captured_image.jpg'' listed_state)) =
     [(TkInt 0, (1, ''https://example.com'')), (TkInt 1, (2, ''ftp://host/res''))] \<and>
   map_option pixels
     (label_image (fst (detect_code rgba_file two_codes ''captured_image.jpg'' listed_state))) =
     Some [[(3, 2, 1)]]"
  by (simp add: eval_defs)

text \<open>
  Claim C8, as amended. When the file loads as an array of three or four channels, the
  detector finds at least one code and every payload is well-formed UTF-8, the row list
  after the scan has one row per code, in the detector's order, with ordinals 1 to n; the
  dedup set plays no part.
\<close>

theorem still_scan_rows:
  assumes "P path = Inr arr" and "np_size arr \<noteq> 0" and "colour_channels arr = Some img"
    and "decode (Gray img) \<noteq> []"
    and "\<forall>b\<in>set (decode (Gray img)). utf8_ok (map of_char (data b))"
  shows "tree (fst (detect_code P decode path s)) =
           map (\<lambda>i. (TkInt i, (Suc i, data (decode (Gray img) ! i))))
             [0..<length (decode (Gray img))] \<and>
         length (tree (fst (detect_code P decode path s))) = length (decode (Gray img)) \<and>
         snd (detect_code P decode path s) = None"
proof -
  let ?bs = "decode (Gray img)"
  let ?s4 = "scan_start decode img s"
  have hp: "handled_payloads ?bs = map data ?bs" using assms(5) by (rule handled_all)
  from scan_loop_ok[OF hp] obtain a' where ok: "snd (scan_loop 0 ?bs img ?s4) = Inr a'"
    by blast
  have t4: "tree ?s4 = []" using assms(4) by (simp add: scan_start_def cleared_fields)
  have st: "fst (scan_loop 0 ?bs img ?s4) = ?s4\<lparr>tree := map row (enumerate 0 (map data ?bs))\<rparr>"
    unfolding scan_loop_state hp t4 by simp
  have li: "load_image P path = Inr arr" using assms(1,2) by (simp add: load_image_def)
  have dc: "detect_code P decode path s =
      ((fst (scan_loop 0 ?bs img ?s4))\<lparr>label_image := Some (cvtColor_BGR2RGB a')\<rparr>, None)"
    unfolding detect_code_loaded[OF li assms(3)] ok by simp
  have 1: "tree (fst (detect_code P decode path s)) =
      map (\<lambda>i. (TkInt i, (Suc i, data (?bs ! i)))) [0..<length ?bs]"
    unfolding dc st by (simp add: rows_by_index)
  have 2: "length (tree (fst (detect_code P decode path s))) = length ?bs"
    unfolding 1 by simp
  have 3: "snd (detect_code P decode path s) = None" unfolding dc by simp
  from 1 2 3 show ?thesis by blast
qed

theorem still_scan_rows_witness:
  "sample_file ''captured_image.jpg'' = Inr (Channels3 sample_image) \<and>
   np_size (Channels3 sample_image) \<noteq> 0 \<and>
   colour_channels (Channels3 sample_image) = Some sample_image \<and>
   two_codes (Gray sample_image) \<noteq> [] \<and>
   list_all (\<lambda>b. utf8_ok (map of_char (data b))) (two_codes (Gray sample_image)) \<and>
   ''https://example.com'' \<in> seen_barcodes seen_state \<and>
   tree (fst (detect_code sample_file two_codes ''captured_image.jpg'' seen_state)) =
     [(TkInt 0, (1, ''https://example.com'')), (TkInt 1, (2, ''ftp://host/res''))] \<and>
   snd (detect_code sample_file two_codes ''captured_image.jpg'' seen_state) = None"
proof -
  have h1: "sample_file ''captured_image.jpg'' = Inr (Channels3 sample_image)"
    by (simp add: sample_file_def)
  have h2: "np_size (Channels3 sample_image) \<noteq> 0" by (simp add: array_size_def sample_image_def)
  have h2': "colour_channels (Channels3 sample_image) = Some sample_image" by simp
  have h3: "two_codes (Gray sample_image) \<noteq> []" by (simp add: two_codes_def)
  have h4: "\<forall>b\<in>set (two_codes (Gray sample_image)). utf8_ok (map of_char (data b))"
    by (simp add: two_codes_def)
  have h5: "''https://example.com'' \<in> seen_barcodes seen_state"
    by (simp add: seen_state_def init_state_def)
  have rows: "map (\<lambda>i. (TkInt i, (Suc i, data (two_codes (Gray sample_image) ! i))))
               [0..<length (two_codes (Gray sample_image))] =
             [(TkInt 0, (1, ''https://example.com'')), (TkInt 1, (2, ''ftp://host/res''))]"
    by (simp add: two_codes_def)
  have h4': "list_all (\<lambda>b. utf8_ok (map of_char (data b))) (two_codes (Gray sample_image))"
    using h4 by (simp add: list_all_iff)
  show ?thesis
    using h1 h2 h2' h3 h4 h4' h5
      still_scan_rows[where P = sample_file and path = "''captured_image.jpg''"
        and arr = "Channels3 sample_image" and img = sample_image and decode = two_codes
        and s = seen_state]
    unfolding rows by blast
qed

text \<open>
  Claim C8, as stated, fails in two ways. A code whose bytes are not UTF-8 makes
  \<open>data.decode\<close> raise in the loop, and the scan ends with fewer rows than codes (here one
  code, no row). And for a greyscale file the conversion to grey raises \<open>cv2.error\<close>
  before the detector is called, so that no row is inserted at all, whatever the detector
  would find (here \<open>two_codes\<close>, which finds two codes in any array).
\<close>

theorem still_scan_rows_counterexample:
  "sample_file ''captured_image.jpg'' = Inr (Channels3 sample_image) \<and>
   np_size (Channels3 sample_image) \<noteq> 0 \<and>
   length (bad_code (Gray sample_image)) = 1 \<and>
   tree (fst (detect_code sample_file bad_code ''captured_image.jpg'' init_state)) = [] \<and>
   snd (detect_code sample_file bad_code ''captured_image.jpg'' init_state) = Some UnicodeDecodeError \<and>
   grey_file ''captured_image.jpg'' = Inr (Plane 1 1) \<and> np_size (Plane 1 1) \<noteq> 0 \<and>
   tree (fst (detect_code grey_file two_codes ''captured_image.jpg'' init_state)) = [] \<and>
   snd (detect_code grey_file two_codes ''captured_image.jpg'' init_state) = Some Cv2Error"
  by (simp add: eval_defs)

text \<open>
  Claim C4, as amended. When opening the path raises \<open>FileNotFoundError\<close> or
  \<open>ValueError\<close>, or gives an array without elements, the scan shows one alert with the
  error's text, does not call the detector, leaves the image of the label as it was and
  ends normally; the row list is empty afterwards, because the rows are deleted before the
  file is opened.
\<close>

theorem still_scan_load_error:
  assumes "P path = Inl (FileNotFoundError m) \<or> P path = Inl (ValueError m) \<or>
           (\<exists>arr. P path = Inr arr \<and> np_size arr = 0 \<and> m = ''The image is empty or corrupted.'')"
  shows "alerts (fst (detect_code P decode path s)) = alerts s @ [(''Error: '' @ m, [])] \<and>
         decoded (fst (detect_code P decode path s)) = decoded s \<and>
         tree (fst (detect_code P decode path s)) = [] \<and>
         label_image (fst (detect_code P decode path s)) = label_image s \<and>
         snd (detect_code P decode path s) = None"
proof -
  from assms have "load_image P path = Inl (FileNotFoundError m) \<or>
                   load_image P path = Inl (ValueError m)"
    by (auto simp: load_image_def)
  then show ?thesis
  proof
    assume l: "load_image P path = Inl (FileNotFoundError m)"
    show ?thesis unfolding detect_code_failed[OF l] by (simp add: cleared_fields)
  next
    assume l: "load_image P path = Inl (ValueError m)"
    show ?thesis unfolding detect_code_failed[OF l] by (simp add: cleared_fields)
  qed
qed


theorem still_scan_load_error_witness:
  "no_file ''captured_image.jpg'' =
     Inl (FileNotFoundError (missing_message ''captured_image.jpg'')) \<and>
   alerts (fst (detect_code no_file one_code ''captured_image.jpg'' listed_state)) =
     alerts listed_state @ [(''Error: '' @ missing_message ''captured_image.jpg'', [])] \<and>
   decoded (fst (detect_code no_file one_code ''captured_image.jpg'' listed_state)) =
     decoded listed_state \<and>
   tree (fst (detect_code no_file one_code ''captured_image.jpg'' listed_state)) = [] \<and>
   label_image (fst (detect_code no_file one_code ''captured_image.jpg'' listed_state)) =
     label_image listed_state \<and>
   snd (detect_code no_file one_code ''captured_image.jpg'' listed_state) = None"
proof -
  have h: "no_file ''captured_image.jpg'' =
     Inl (FileNotFoundError (missing_message ''captured_image.jpg''))"
    by (simp add: no_file_def)
  show ?thesis
    using h still_scan_load_error[where P = no_file and path = "''captured_image.jpg''"
        and m = "missing_message ''captured_image.jpg''"
        and decode = one_code and s = listed_state]
    by blast
qed

text \<open>
  Claim C4, as stated, fails: the rows shown before the scan are not preserved when the
  file is missing.
\<close>

theorem still_scan_load_error_counterexample:
  "tree listed_state =
     [(TkInt 0, (1, ''https://example.com'')), (TkInt 1, (2, ''ftp://host/res''))] \<and>
   tree (fst (detect_code no_file one_code ''captured_image.jpg'' listed_state)) = [] \<and>
   tree (fst (detect_code no_file one_code ''captured_image.jpg'' listed_state)) \<noteq>
     tree listed_state"
  by (simp add: eval_defs)

text \<open>
  Any other error of opening the file (an unreadable or unidentified file is an
  \<open>OSError\<close>) is not handled: it leaves \<open>detect_code\<close> without an alert.
\<close>

lemma still_scan_unhandled_error:
  assumes "P path = Inl (OSError m)"
  shows "alerts (fst (detect_code P decode path s)) = alerts s \<and>
         tree (fst (detect_code P decode path s)) = [] \<and>
         snd (detect_code P decode path s) = Some (OSError m)"
proof -
  have l: "load_image P path = Inl (OSError m)" using assms by (simp add: load_image_def)
  show ?thesis unfolding detect_code_failed[OF l] by (simp add: cleared_fields)
qed

lemma startswith_prefix: "startswith s p = prefix p s"
proof
  assume "startswith s p"
  then have "s = p @ drop (length p) s"
    unfolding startswith_def by (metis append_take_drop_id)
  then show "prefix p s" by (metis prefixI)
next
  assume "prefix p s"
  then obtain zs where "s = p @ zs" by (auto simp: prefix_def)
  then show "startswith s p" by (simp add: startswith_def)
qed

lemma take_picture_seen: "seen_barcodes (take_picture rd s) = seen_barcodes s"
  by (cases rd) (simp_all add: take_picture_def)

lemma select_link_seen: "seen_barcodes (fst (select_link selection response s)) = seen_barcodes s"
  by (cases selection) (simp_all add: select_link_def Let_def)

lemma update_frame_seen_mono: "seen_barcodes s \<subseteq> seen_barcodes (fst (update_frame decode rd s))"
proof -
  from update_frame_effects[of decode rd s] obtain nw :: "(nat \<times> string) list" where
    "seen_barcodes (fst (update_frame decode rd s)) = seen_barcodes s \<union> set (map snd nw)"
    by blast
  then show ?thesis by simp
qed

lemma decode_barcodes_over_feed_seen_mono:
  "seen_barcodes s \<subseteq> seen_barcodes (fst (decode_barcodes_over_feed decode img s))"
proof -
  from decode_barcodes_over_feed_effects[of decode img s] obtain nw :: "(nat \<times> string) list" where
    "seen_barcodes (fst (decode_barcodes_over_feed decode img s)) =
       seen_barcodes s \<union> set (map snd nw)"
    by blast
  then show ?thesis by simp
qed

lemma ticks_seen_mono: "seen_barcodes s \<subseteq> seen_barcodes (ticks decode rds s)"
proof (induction rds arbitrary: s)
  case Nil
  show ?case by simp
next
  case (Cons rd rds)
  have "seen_barcodes s \<subseteq> seen_barcodes (fst (update_frame decode rd s))"
    by (rule update_frame_seen_mono)
  also have "\<dots> \<subseteq> seen_barcodes (ticks decode (rd # rds) s)"
    using Cons.IH[of "fst (update_frame decode rd s)"] by simp
  finally show ?case .
qed

lemma cam_feed_seen_mono:
  "seen_barcodes s \<subseteq> seen_barcodes (fst (cam_feed decode opens rd s))"
  unfolding cam_feed_def
  using update_frame_seen_mono[of "s\<lparr>cap := Some opens\<rparr>" decode rd] by simp

text \<open>
  Claim C2. The dedup set after processing a frame contains the dedup set before it, and
  so it does after a tick, after starting the feed and after any run of ticks; capturing a
  picture, scanning a still image and selecting a row leave it unchanged.
\<close>

theorem dedup_set_grows:
  "seen_barcodes s \<subseteq> seen_barcodes (fst (decode_barcodes_over_feed decode img s)) \<and>
   seen_barcodes s \<subseteq> seen_barcodes (fst (update_frame decode rd s)) \<and>
   seen_barcodes s \<subseteq> seen_barcodes (fst (cam_feed decode opens rd s)) \<and>
   seen_barcodes s \<subseteq> seen_barcodes (ticks decode rds s) \<and>
   seen_barcodes (take_picture rd s) = seen_barcodes s \<and>
   seen_barcodes (fst (detect_code P decode path s)) = seen_barcodes s \<and>
   seen_barcodes (fst (select_link selection response s)) = seen_barcodes s"
proof (intro conjI)
  show "seen_barcodes s \<subseteq> seen_barcodes (fst (decode_barcodes_over_feed decode img s))"
    by (rule decode_barcodes_over_feed_seen_mono)
  show "seen_barcodes s \<subseteq> seen_barcodes (fst (update_frame decode rd s))"
    by (rule update_frame_seen_mono)
  show "seen_barcodes s \<subseteq> seen_barcodes (fst (cam_feed decode opens rd s))"
    by (rule cam_feed_seen_mono)
  show "seen_barcodes s \<subseteq> seen_barcodes (ticks decode rds s)"
    by (rule ticks_seen_mono)
  show "seen_barcodes (take_picture rd s) = seen_barcodes s"
    by (rule take_picture_seen)
  show "seen_barcodes (fst (detect_code P decode path s)) = seen_barcodes s"
    using detect_code_seen_browser[of P decode path s] by simp
  show "seen_barcodes (fst (select_link selection response s)) = seen_barcodes s"
    by (rule select_link_seen)
qed

text \<open>
  Claim C3. A tick whose read failed changes nothing but the timer: the detector is not
  called, the dedup set and the alerts are as before, \<open>label.after\<close> is called once and
  no exception leaves the callback.
\<close>

theorem failed_read_skips_tick:
  "update_frame decode None s = (s\<lparr>after_calls := Suc (after_calls s)\<rparr>, None) \<and>
   decoded (fst (update_frame decode None s)) = decoded s \<and>
   seen_barcodes (fst (update_frame decode None s)) = seen_barcodes s \<and>
   alerts (fst (update_frame decode None s)) = alerts s \<and>
   after_calls (fst (update_frame decode None s)) = Suc (after_calls s) \<and>
   snd (update_frame decode None s) = None"
  by (simp add: update_frame_None)


lemma select_link_selected:
  assumes "selection = i # rest" and "i < length (tree s)" and "tree s ! i = (t, (n, link))"
  shows "select_link selection response s =
     (if prefix ''https:'' link then (s\<lparr>browser := browser s @ [link]\<rparr>, None)
      else if response = ''OK''
      then (s\<lparr>confirms := confirms s @
                [(''The item selected is not a link. Do you still want to open it?'',
                  ''Confirmation'')],
              browser := browser s @ [link]\<rparr>, None)
      else (s\<lparr>confirms := confirms s @
                [(''The item selected is not a link. Do you still want to open it?'',
                  ''Confirmation'')],
              printed := printed s @ [''User chose to cancel'']\<rparr>, None))"
  unfolding select_link_def assms(1) startswith_prefix
  using assms(2,3) by (simp add: Let_def)

text \<open>
  Claim C9. For a selected row with payload \<open>link\<close>: the confirmation dialog is shown
  exactly when \<open>link\<close> does not begin with \<open>https:\<close>; the payload is opened exactly when
  it begins with \<open>https:\<close> or the dialog returned \<open>OK\<close>; otherwise a line is printed
  and nothing else changes.
\<close>

theorem select_link_dispatch:
  assumes "selection = i # rest" and "i < length (tree s)" and "tree s ! i = (t, (n, link))"
  shows "confirms (fst (select_link selection response s)) =
           (if prefix ''https:'' link then confirms s
            else confirms s @
              [(''The item selected is not a link. Do you still want to open it?'',
                ''Confirmation'')]) \<and>
         browser (fst (select_link selection response s)) =
           (if prefix ''https:'' link \<or> response = ''OK'' then browser s @ [link]
            else browser s) \<and>
         printed (fst (select_link selection response s)) =
           (if prefix ''https:'' link \<or> response = ''OK'' then printed s
            else printed s @ [''User chose to cancel'']) \<and>
         seen_barcodes (fst (select_link selection response s)) = seen_barcodes s \<and>
         tree (fst (select_link selection response s)) = tree s \<and>
         alerts (fst (select_link selection response s)) = alerts s \<and>
         label_image (fst (select_link selection response s)) = label_image s \<and>
         snd (select_link selection response s) = None"
  unfolding select_link_selected[OF assms] by simp


theorem select_link_dispatch_witness:
  "[1] = 1 # [] \<and> 1 < length (tree listed_state) \<and>
   tree listed_state ! 1 = (TkInt 1, (2, ''ftp://host/res'')) \<and>
   \<not> prefix ''https:'' ''ftp://host/res'' \<and>
   confirms (fst (select_link [1] ''OK'' listed_state)) =
     confirms listed_state @
       [(''The item selected is not a link. Do you still want to open it?'', ''Confirmation'')] \<and>
   browser (fst (select_link [1] ''OK'' listed_state)) = browser listed_state @ [''ftp://host/res''] \<and>
   printed (fst (select_link [1] ''OK'' listed_state)) = printed listed_state \<and>
   snd (select_link [1] ''OK'' listed_state) = None"
proof -
  have h1: "[1] = (1::nat) # []" by simp
  have h2: "1 < length (tree listed_state)" by (simp add: listed_state_def init_state_def)
  have h3: "tree listed_state ! 1 = (TkInt 1, (2, ''ftp://host/res''))"
    by (simp add: listed_state_def init_state_def)
  have h4: "\<not> prefix ''https:'' ''ftp://host/res''" by simp
  show ?thesis
    using h1 h2 h3 h4 select_link_dispatch[OF h1 h2 h3, of "''OK''"]
    by simp
qed

text \<open>
  The scenario of the specification: on the row \<open>ftp://host/res\<close> the dialog is shown;
  confirming opens the payload, declining does not; the row \<open>https://example.com\<close> is
  opened without a dialog.
\<close>

lemma select_link_scenario:
  "browser (fst (select_link [1] ''OK'' listed_state)) = [''ftp://host/res''] \<and>
   length (confirms (fst (select_link [1] ''OK'' listed_state))) = 1 \<and>
   browser (fst (select_link [1] ''Cancel'' listed_state)) = [] \<and>
   length (confirms (fst (select_link [1] ''Cancel'' listed_state))) = 1 \<and>
   printed (fst (select_link [1] ''Cancel'' listed_state)) = [''User chose to cancel''] \<and>
   browser (fst (select_link [0] ''Cancel'' listed_state)) = [''https://example.com''] \<and>
   confirms (fst (select_link [0] ''Cancel'' listed_state)) = [] \<and>
   select_link [] ''OK'' listed_state = (listed_state, Some IndexError)"
  by (simp add: eval_defs)

lemma enumerate_lower: "(k, x) \<in> set (enumerate n xs) \<Longrightarrow> n \<le> k"
  by (simp add: in_set_enumerate_eq)

lemma handled_Cons: "decode_utf8 (data b) = Inr d \<Longrightarrow> handled_payloads (b # bs) = d # handled_payloads bs"
  by simp

lemma handled_err: "decode_utf8 (data b) = Inl e \<Longrightarrow> handled_payloads (b # bs) = []"
  by simp


lemma take_shift:
  assumes "Suc i \<le> k"
  shows "take (k - i) (d # hp) = d # take (k - Suc i) hp"
proof -
  from assms have "k - i = Suc (k - Suc i)" by arith
  then show ?thesis by simp
qed

lemma filter_enum_seen:
  assumes "d \<in> A"
  shows "filter (\<lambda>(k, x). x \<notin> A \<and> x \<notin> set (take (k - i) (d # hp))) (enumerate (Suc i) hp) =
         filter (\<lambda>(k, x). x \<notin> A \<and> x \<notin> set (take (k - Suc i) hp)) (enumerate (Suc i) hp)"
proof (rule filter_cong[OF refl])
  fix p assume p: "p \<in> set (enumerate (Suc i) hp)"
  obtain k x where kx: "p = (k, x)" by (cases p)
  from p[unfolded kx] have "Suc i \<le> k" by (rule enumerate_lower)
  then have t: "take (k - i) (d # hp) = d # take (k - Suc i) hp" by (rule take_shift)
  have "(x \<notin> A \<and> x \<notin> set (d # take (k - Suc i) hp)) = (x \<notin> A \<and> x \<notin> set (take (k - Suc i) hp))"
    using assms by auto
  then show "(case p of (k, x) \<Rightarrow> x \<notin> A \<and> x \<notin> set (take (k - i) (d # hp))) =
             (case p of (k, x) \<Rightarrow> x \<notin> A \<and> x \<notin> set (take (k - Suc i) hp))"
    unfolding kx prod.case t .
qed

lemma filter_enum_new:
  "filter (\<lambda>(k, x). x \<notin> A \<and> x \<notin> set (take (k - i) (d # hp))) (enumerate (Suc i) hp) =
   filter (\<lambda>(k, x). x \<notin> insert d A \<and> x \<notin> set (take (k - Suc i) hp)) (enumerate (Suc i) hp)"
proof (rule filter_cong[OF refl])
  fix p assume p: "p \<in> set (enumerate (Suc i) hp)"
  obtain k x where kx: "p = (k, x)" by (cases p)
  from p[unfolded kx] have "Suc i \<le> k" by (rule enumerate_lower)
  then have t: "take (k - i) (d # hp) = d # take (k - Suc i) hp" by (rule take_shift)
  have "(x \<notin> A \<and> x \<notin> set (d # take (k - Suc i) hp)) =
        (x \<notin> insert d A \<and> x \<notin> set (take (k - Suc i) hp))"
    by auto
  then show "(case p of (k, x) \<Rightarrow> x \<notin> A \<and> x \<notin> set (take (k - i) (d # hp))) =
             (case p of (k, x) \<Rightarrow> x \<notin> insert d A \<and> x \<notin> set (take (k - Suc i) hp))"
    unfolding kx prod.case t .
qed


lemma feed_loop_tree:
  "tree (fst (feed_loop i bs a s)) =
   tree s @ map row (filter (\<lambda>(k, d). d \<notin> seen_barcodes s \<and>
                                 d \<notin> set (take (k - i) (handled_payloads bs)))
                      (enumerate i (handled_payloads bs)))"
proof (induction bs arbitrary: i a s)
  case Nil
  show ?case by simp
next
  case (Cons b bs)
  let ?hp = "handled_payloads bs"
  show ?case
  proof (cases rule: feed_loop_cases[of b i bs a s])
    case (err e)
    show ?thesis unfolding err(2) handled_err[OF err(1)] by simp
  next
    case (seen d a')
    have "tree (fst (feed_loop i (b # bs) a s)) =
        tree s @ map row (filter (\<lambda>(k, x). x \<notin> seen_barcodes s \<and> x \<notin> set (take (k - Suc i) ?hp))
                           (enumerate (Suc i) ?hp))"
      unfolding seen(3) by (rule Cons.IH)
    also have "\<dots> = tree s @ map row (filter (\<lambda>(k, x). x \<notin> seen_barcodes s \<and>
                                   x \<notin> set (take (k - i) (d # ?hp)))
                           ((i, d) # enumerate (Suc i) ?hp))"
      unfolding filter.simps filter_enum_seen[OF seen(2)] using seen(2) by simp
    finally show ?thesis unfolding handled_Cons[OF seen(1)] enumerate_simps .
  next
    case (new d a')
    let ?s1 = "s\<lparr>seen_barcodes := insert d (seen_barcodes s),
                 browser := browser s @ [d],
                 tree := tree s @ [(TkInt i, (i + 1, d))]\<rparr>"
    have "tree (fst (feed_loop i (b # bs) a s)) =
        tree ?s1 @ map row (filter (\<lambda>(k, x). x \<notin> seen_barcodes ?s1 \<and> x \<notin> set (take (k - Suc i) ?hp))
                           (enumerate (Suc i) ?hp))"
      unfolding new(3) by (rule Cons.IH)
    also have "\<dots> = tree s @ row (i, d) #
         map row (filter (\<lambda>(k, x). x \<notin> insert d (seen_barcodes s) \<and> x \<notin> set (take (k - Suc i) ?hp))
                           (enumerate (Suc i) ?hp))"
      by (simp add: row_def)
    also have "\<dots> = tree s @ map row (filter (\<lambda>(k, x). x \<notin> seen_barcodes s \<and>
                                   x \<notin> set (take (k - i) (d # ?hp)))
                           ((i, d) # enumerate (Suc i) ?hp))"
      unfolding filter.simps filter_enum_new using new(2) by simp
    finally show ?thesis unfolding handled_Cons[OF new(1)] enumerate_simps .
  qed
qed


lemma enumerate_as_map: "enumerate 0 xs = map (\<lambda>i. (i, xs ! i)) [0..<length xs]"
  by (rule nth_equalityI) (simp_all add: nth_enumerate_eq)

lemma rows_filter_by_index:
  "map row (filter (\<lambda>(k, d). d \<notin> A \<and> d \<notin> set (take (k - 0) xs)) (enumerate 0 xs)) =
   map (\<lambda>i. (TkInt i, (Suc i, xs ! i)))
     (filter (\<lambda>i. xs ! i \<notin> A \<and> xs ! i \<notin> set (take i xs)) [0..<length xs])"
  unfolding enumerate_as_map filter_map map_map
  by (simp add: row_def comp_def)

text \<open>
  Claim C6. With \<open>ps\<close> the payloads the loop handles in the current frame, the rows a
  frame adds are, in order, the rows \<open>(i + 1, ps ! i)\<close> for the positions \<open>i\<close> of \<open>ps\<close>
  whose payload is neither in the dedup set nor earlier in \<open>ps\<close>: the ordinal is the
  1-based position in this frame's detection list, codes already seen included, and does
  not depend on the rows of earlier frames.
\<close>

theorem live_row_ordinal:
  "tree (fst (decode_barcodes_over_feed decode img s)) =
   tree s @
   map (\<lambda>i. (TkInt i, (Suc i, handled_payloads (decode (Colour img)) ! i)))
     (filter (\<lambda>i. handled_payloads (decode (Colour img)) ! i \<notin> seen_barcodes s \<and>
                  handled_payloads (decode (Colour img)) ! i \<notin>
                    set (take i (handled_payloads (decode (Colour img)))))
        [0..<length (handled_payloads (decode (Colour img)))])"
proof -
  have "tree (fst (decode_barcodes_over_feed decode img s)) =
     tree s @ map row (filter (\<lambda>(k, d). d \<notin> seen_barcodes s \<and>
                                 d \<notin> set (take (k - 0) (handled_payloads (decode (Colour img)))))
                      (enumerate 0 (handled_payloads (decode (Colour img)))))"
    unfolding fst_decode_barcodes_over_feed feed_loop_tree by simp
  then show ?thesis unfolding rows_filter_by_index .
qed

lemma no_codes_pass:
  assumes "decode (Colour img) = []"
  shows "decode_barcodes_over_feed decode img s =
           (s\<lparr>decoded := decoded s @ [Colour img]\<rparr>, Inr (cvtColor_BGR2RGB img))"
  using assms by (simp add: decode_barcodes_over_feed_def)

text \<open>
  A code already in the dedup set keeps its place in the count: with the first of two codes
  seen before, the row of the second carries ordinal 2.
\<close>

lemma ordinal_counts_seen_codes:
  "tree (fst (decode_barcodes_over_feed two_codes sample_image seen_state)) =
     [(TkInt 1, (2, ''ftp://host/res''))] \<and>
   browser (fst (decode_barcodes_over_feed two_codes sample_image seen_state)) =
     [''ftp://host/res'']"
  by (simp add: eval_defs)

text \<open>
  Claim C5. On a frame without codes \<open>decode_barcodes_over_feed\<close> inserts no row, opens
  nothing and leaves the dedup set alone (\<open>no_codes_pass\<close>), but the image it returns is
  not the image it was given: the closing \<open>COLOR_BGR2RGB\<close> conversion is applied to an
  array that \<open>update_frame\<close> had already converted to RGB, so red and blue come back
  exchanged. On the one-pixel image \<open>(1, 2, 3)\<close> it returns \<open>(3, 2, 1)\<close>.
\<close>

theorem empty_detection_swaps_channels:
  "no_codes (Colour sample_image) = [] \<and>
   sample_image = \<lparr>pixels = [[(1, 2, 3)]], drawn = []\<rparr> \<and>
   decode_barcodes_over_feed no_codes sample_image init_state =
     (init_state\<lparr>decoded := [Colour sample_image]\<rparr>,
      Inr \<lparr>pixels = [[(3, 2, 1)]], drawn = []\<rparr>) \<and>
   snd (decode_barcodes_over_feed no_codes sample_image init_state) \<noteq> Inr sample_image"
  by (simp add: eval_defs)

text \<open>
  Seen from the camera, the two conversions cancel: the label shows the mirrored frame's
  BGR bytes as if they were RGB.
\<close>

lemma tick_shows_raw_frame:
  assumes "decode (Colour (fromarray (cvtColor_BGR2RGB_frame (flip fr)))) = []"
  shows "label_image (fst (update_frame decode (Some fr) s)) = Some (fromarray (flip fr))"
  using assms
  by (simp add: update_frame_def no_codes_pass cvtColor_BGR2RGB_def fromarray_def
      cvtColor_BGR2RGB_frame_def swap_channels_def comp_def split_def)


end
